theory Spec2Isabelle
  imports Complex_Main "HOL-Library.Multiset"
begin

section \<open>C values: errors and checked \<open>int\<close> arithmetic\<close>

text \<open>
  The two programs are C/C++ MPI programs. A \<open>double\<close> is modelled as a \<open>real\<close>
  (rounding is not modelled), a C \<open>int\<close> as an \<open>int\<close> whose results are checked
  against the 32-bit range where the decomposition is computed (signed overflow is
  undefined behaviour: it is the error \<open>IntOverflow\<close>), and a heap array as a list
  whose accesses are checked (an access outside the allocation is \<open>OutOfBounds\<close>).
  A blocking receive that no send matches never returns: it is \<open>Deadlock\<close>.
\<close>

datatype error = IntOverflow | DivByZero | OutOfBounds | Deadlock

definition bindE :: "error + 'a \<Rightarrow> ('a \<Rightarrow> error + 'b) \<Rightarrow> error + 'b" where
  "bindE m k = (case m of Inl e \<Rightarrow> Inl e | Inr x \<Rightarrow> k x)"

definition INT_MAX :: int where
  "INT_MAX = 2147483647"

definition INT_MIN :: int where
  "INT_MIN = - 2147483648"

definition c_int :: "int \<Rightarrow> error + int" where
  "c_int x = (if INT_MIN \<le> x \<and> x \<le> INT_MAX then Inr x else Inl IntOverflow)"

text \<open>C's \<open>/\<close> on \<open>int\<close> truncates towards zero.\<close>

definition c_div :: "int \<Rightarrow> int \<Rightarrow> error + int" where
  "c_div x y = (if y = 0 then Inl DivByZero else c_int (sgn x * sgn y * (\<bar>x\<bar> div \<bar>y\<bar>)))"

section \<open>Domain partitioner (jacobi.c lines 66--81, 2D variant lines 68--71)\<close>

text \<open>
  \<open>first_index\<close> and \<open>last_index\<close> are the 0-based inclusive pair the 1D program
  prints (lines 72--73); \<open>start_index\<close> and \<open>end_index\<close> are the 1-based pair it
  then loops with (lines 80--81), which is also what the 2D program computes.
  \<open>(int)fmin(x, y)\<close> on two \<open>int\<close> values is exact: it is \<open>min\<close>.
\<close>

record decomposition =
  points_per_proc :: int
  first_index :: int
  last_index :: int
  start_index :: int
  end_index :: int

definition decompose :: "int \<Rightarrow> int \<Rightarrow> int \<Rightarrow> error + decomposition" where
  "decompose num_points num_procs rank =
     bindE (c_int (num_points + num_procs)) (\<lambda>s.
     bindE (c_int (s - 1)) (\<lambda>t.
     bindE (c_div t num_procs) (\<lambda>ppp.
     bindE (c_int (rank * ppp)) (\<lambda>lo.
     bindE (c_int (rank + 1)) (\<lambda>r1.
     bindE (c_int (r1 * ppp)) (\<lambda>hi.
     bindE (c_int (min hi num_points - 1)) (\<lambda>e0.
     bindE (c_int (lo + 1)) (\<lambda>s1.
       Inr \<lparr>points_per_proc = ppp, first_index = lo, last_index = e0,
            start_index = s1, end_index = min hi num_points\<rparr>))))))))"

text \<open>The interior indices (0-based) that worker \<open>rank\<close> is assigned.\<close>

definition block :: "int \<Rightarrow> int \<Rightarrow> int \<Rightarrow> int list" where
  "block num_points num_procs rank =
     (case decompose num_points num_procs rank of
        Inl e \<Rightarrow> []
      | Inr d \<Rightarrow> [first_index d..last_index d])"


text \<open>
  The 2D program (lines 68--71) computes the same pair and then overwrites
  \<open>rank_num_points\<close> with \<open>end_index - start_index + 1\<close>. The triple returned is
  \<open>(rank_num_points, start_index, end_index)\<close>.
\<close>

definition decompose_2d :: "int \<Rightarrow> int \<Rightarrow> int \<Rightarrow> error + int \<times> int \<times> int" where
  "decompose_2d num_points num_procs rank =
     bindE (c_int (num_points + num_procs)) (\<lambda>s.
     bindE (c_int (s - 1)) (\<lambda>t.
     bindE (c_div t num_procs) (\<lambda>rnp.
     bindE (c_int (rank * rnp)) (\<lambda>lo.
     bindE (c_int (lo + 1)) (\<lambda>s1.
     bindE (c_int (rank + 1)) (\<lambda>r1.
     bindE (c_int (r1 * rnp)) (\<lambda>hi.
     bindE (c_int (min hi num_points - s1)) (\<lambda>w.
     bindE (c_int (w + 1)) (\<lambda>rnp'.
       Inr (rnp', s1, min hi num_points))))))))))"

section \<open>The 1D program (jacobi.c)\<close>

subsection \<open>Problem parameters and discretisation (lines 29, 32, 62--63)\<close>

definition alpha :: real where
  "alpha = 0"

definition beta :: real where
  "beta = 3"

definition a_bound :: real where
  "a_bound = 0"

definition b_bound :: real where
  "b_bound = 1"

definition MAX_ITERATIONS :: int where
  "MAX_ITERATIONS = 10000"

text \<open>
  \<open>dx = (b - a) / ((double)(num_points + 1))\<close>. IEEE division by zero gives an
  infinity, which \<open>real\<close> does not have: the model stops there.
\<close>

definition grid_spacing :: "int \<Rightarrow> error + real" where
  "grid_spacing num_points =
     bindE (c_int (num_points + 1)) (\<lambda>k.
       if k = 0 then Inl DivByZero else Inr ((b_bound - a_bound) / real_of_int k))"


subsection \<open>Work arrays\<close>

definition rd :: "'a list \<Rightarrow> int \<Rightarrow> error + 'a" where
  "rd xs i = (if 0 \<le> i \<and> i < int (length xs) then Inr (xs ! nat i) else Inl OutOfBounds)"

definition wr :: "'a list \<Rightarrow> int \<Rightarrow> 'a \<Rightarrow> error + 'a list" where
  "wr xs i v = (if 0 \<le> i \<and> i < int (length xs) then Inr (xs[nat i := v]) else Inl OutOfBounds)"

text \<open>A \<open>for\<close> loop over the listed values of its index, stopping at the first error.\<close>

fun for_each :: "'i list \<Rightarrow> ('i \<Rightarrow> 's \<Rightarrow> error + 's) \<Rightarrow> 's \<Rightarrow> error + 's" where
  "for_each [] body s = Inr s"
| "for_each (i # is) body s = bindE (body i s) (for_each is body)"

text \<open>The same action by every element of a list (every process), collecting the results.\<close>

fun collect :: "('x \<Rightarrow> error + 'y) \<Rightarrow> 'x list \<Rightarrow> error + 'y list" where
  "collect g [] = Inr []"
| "collect g (x # xs) = bindE (g x) (\<lambda>y. bindE (collect g xs) (\<lambda>ys. Inr (y # ys)))"

text \<open>
  The local variables of \<open>main\<close> in one process: the decomposition, the three work
  arrays and the two deltas. The sweep counter \<open>N\<close> is kept beside the state (see
  \<open>jacobi_iterations\<close>).
\<close>

record state = decomposition +
  u :: "real list"
  u_old :: "real list"
  f :: "real list"
  du_max_proc :: real
  du_max :: real

text \<open>
  Lines 84--86: three arrays of \<open>points_per_proc + 2\<close> doubles; \<open>junk\<close> is the
  indeterminate content of fresh memory (and of the scalars never assigned).
\<close>

definition malloc :: "int \<Rightarrow> (nat \<Rightarrow> real) \<Rightarrow> real list" where
  "malloc n junk = map junk [0..<nat n]"

definition allocate :: "decomposition \<Rightarrow> (nat \<Rightarrow> real) \<Rightarrow> state" where
  "allocate d junk =
     \<lparr>points_per_proc = points_per_proc d, first_index = first_index d,
      last_index = last_index d, start_index = start_index d, end_index = end_index d,
      u = malloc (points_per_proc d + 2) junk, u_old = malloc (points_per_proc d + 2) junk,
      f = malloc (points_per_proc d + 2) junk, du_max_proc = junk 0, du_max = junk 0\<rparr>"

definition allocated :: "state \<Rightarrow> bool" where
  "allocated s =
     (0 \<le> points_per_proc s \<and> length (u s) = nat (points_per_proc s + 2)
      \<and> length (u_old s) = nat (points_per_proc s + 2)
      \<and> length (f s) = nat (points_per_proc s + 2))"

subsection \<open>Initialisation (lines 88--102)\<close>

definition init_point :: "real \<Rightarrow> int \<Rightarrow> state \<Rightarrow> error + state" where
  "init_point dx i s =
     (let x = dx * real_of_int i in
      bindE (wr (f s) i (exp x)) (\<lambda>f'.
      bindE (wr (u s) i (alpha + x * (beta - alpha))) (\<lambda>u'.
        Inr (s\<lparr>f := f', u := u'\<rparr>))))"

definition initialize :: "int \<Rightarrow> int \<Rightarrow> real \<Rightarrow> state \<Rightarrow> error + state" where
  "initialize num_procs rank dx s =
     bindE (for_each [start_index s..end_index s] (init_point dx) s) (\<lambda>s1.
     bindE (if rank = 0
            then bindE (wr (u s1) (start_index s1 - 1) alpha) (\<lambda>u'. Inr (s1\<lparr>u := u'\<rparr>))
            else Inr s1) (\<lambda>s2.
     if rank = num_procs - 1
     then bindE (wr (u s2) (end_index s2 + 1) beta) (\<lambda>u'. Inr (s2\<lparr>u := u'\<rparr>))
     else Inr s2))"

definition startup :: "int \<Rightarrow> int \<Rightarrow> int \<Rightarrow> (nat \<Rightarrow> real) \<Rightarrow> error + state" where
  "startup num_points num_procs rank junk =
     bindE (grid_spacing num_points) (\<lambda>dx.
     bindE (decompose num_points num_procs rank) (\<lambda>d.
       initialize num_procs rank dx (allocate d junk)))"

subsection \<open>One sweep: copy, halo exchange, relaxation (lines 107--138)\<close>

definition copy_point :: "int \<Rightarrow> state \<Rightarrow> error + state" where
  "copy_point i s =
     bindE (rd (u s) i) (\<lambda>v.
     bindE (wr (u_old s) i v) (\<lambda>o'.
       Inr (s\<lparr>u_old := o'\<rparr>)))"

definition copy_iterate :: "state \<Rightarrow> error + state" where
  "copy_iterate s = for_each [0..points_per_proc s + 1] copy_point s"

text \<open>
  A message in flight: \<open>MPI_Isend\<close> of one double. The payload is the value of the
  buffer when the send is posted (the program never waits on the request, and receives
  into the same cell afterwards).
\<close>

record 'p message =
  msg_src :: int
  msg_dest :: int
  msg_tag :: int
  payload :: 'p

definition post_sends :: "int \<Rightarrow> int \<Rightarrow> state \<Rightarrow> error + real message list" where
  "post_sends num_procs rank s =
     bindE (if rank > 0
            then bindE (rd (u_old s) 0) (\<lambda>v.
                   Inr [\<lparr>msg_src = rank, msg_dest = rank - 1, msg_tag = 1, payload = v\<rparr>])
            else Inr []) (\<lambda>m1.
     bindE (if rank < num_procs - 1
            then bindE (rd (u_old s) (end_index s + 1)) (\<lambda>v.
                   Inr [\<lparr>msg_src = rank, msg_dest = rank + 1, msg_tag = 2, payload = v\<rparr>])
            else Inr []) (\<lambda>m2.
       Inr (m1 @ m2)))"

text \<open>
  \<open>MPI_Recv\<close> from \<open>source\<close> with \<open>tag\<close>, posted by process \<open>rank\<close>: it returns the
  first matching message, and blocks for ever when there is none.
\<close>

definition mpi_recv :: "'p message list \<Rightarrow> int \<Rightarrow> int \<Rightarrow> int \<Rightarrow> error + 'p" where
  "mpi_recv pool rank source tg =
     (case find (\<lambda>m. msg_src m = source \<and> msg_dest m = rank \<and> msg_tag m = tg) pool of
        None \<Rightarrow> Inl Deadlock
      | Some m \<Rightarrow> Inr (payload m))"

definition receive_halo :: "int \<Rightarrow> int \<Rightarrow> real message list \<Rightarrow> state \<Rightarrow> error + state" where
  "receive_halo num_procs rank pool s =
     bindE (if rank < num_procs - 1
            then bindE (mpi_recv pool rank (rank + 1) 1) (\<lambda>v.
                 bindE (wr (u_old s) (end_index s + 1) v) (\<lambda>o'.
                   Inr (s\<lparr>u_old := o'\<rparr>)))
            else Inr s) (\<lambda>s1.
     if rank > 0
     then bindE (mpi_recv pool rank (rank - 1) 2) (\<lambda>v.
          bindE (wr (u_old s1) 0 v) (\<lambda>o'.
            Inr (s1\<lparr>u_old := o'\<rparr>)))
     else Inr s1)"

text \<open>The processes of a run, by rank.\<close>

definition with_ranks :: "'s list \<Rightarrow> (int \<times> 's) list" where
  "with_ranks ws = zip [0..int (length ws) - 1] ws"

text \<open>
  The exchange of all processes: every process posts its sends, then every process
  runs its receives against the messages in flight.
\<close>

definition halo_exchange :: "state list \<Rightarrow> error + state list" where
  "halo_exchange ws =
     bindE (collect (\<lambda>(r, s). post_sends (int (length ws)) r s) (with_ranks ws)) (\<lambda>ms.
       collect (\<lambda>(r, s). receive_halo (int (length ws)) r (concat ms) s) (with_ranks ws))"

text \<open>Lines 133--138; \<open>pow(dx, 2)\<close> is \<open>dx\<^sup>2\<close>, \<open>fmax\<close> is \<open>max\<close>, \<open>fabs\<close> is \<open>abs\<close>.\<close>

definition relax_point :: "real \<Rightarrow> int \<Rightarrow> state \<Rightarrow> error + state" where
  "relax_point dx i s =
     bindE (rd (u_old s) (i - 1)) (\<lambda>l.
     bindE (rd (u_old s) (i + 1)) (\<lambda>r.
     bindE (rd (f s) i) (\<lambda>fi.
     bindE (wr (u s) i (0.5 * (l + r - dx ^ 2 * fi))) (\<lambda>u'.
     bindE (rd u' i) (\<lambda>ui.
     bindE (rd (u_old s) i) (\<lambda>oi.
       Inr (s\<lparr>u := u', du_max_proc := max (du_max_proc s) \<bar>ui - oi\<bar>\<rparr>)))))))"

text \<open>The relaxation loop, visiting the points in the order \<open>is\<close>.\<close>

definition relax_over :: "real \<Rightarrow> int list \<Rightarrow> state \<Rightarrow> error + state" where
  "relax_over dx is s = for_each is (relax_point dx) (s\<lparr>du_max_proc := 0\<rparr>)"

definition apply_jacobi :: "real \<Rightarrow> state \<Rightarrow> error + state" where
  "apply_jacobi dx s = relax_over dx [1..points_per_proc s] s"

subsection \<open>Convergence test and iteration driver (lines 105, 141--152)\<close>

text \<open>
  \<open>MPI_Allreduce\<close> with \<open>MPI_MAX\<close> over \<open>MPI_COMM_WORLD\<close>: every process contributes
  one double and every process gets the maximum of all contributions.
\<close>

definition allreduce_max :: "real list \<Rightarrow> real list" where
  "allreduce_max ds =
     (case ds of [] \<Rightarrow> [] | x # xs \<Rightarrow> replicate (length ds) (fold max xs x))"

text \<open>
  Line 141 in every process: \<open>du_max_proc\<close> goes in, \<open>du_max\<close> comes out. \<open>ws\<close> are the
  states of all processes after their relaxation loops.
\<close>

definition all_reduce :: "state list \<Rightarrow> state list" where
  "all_reduce ws = map2 (\<lambda>s g. s\<lparr>du_max := g\<rparr>) ws (allreduce_max (map du_max_proc ws))"

definition global_sweep :: "real \<Rightarrow> state list \<Rightarrow> error + state list" where
  "global_sweep dx ws =
     bindE (collect copy_iterate ws) (\<lambda>ws1.
     bindE (halo_exchange ws1) (\<lambda>ws2.
     bindE (collect (apply_jacobi dx) ws2) (\<lambda>ws3.
       Inr (all_reduce ws3))))"

text \<open>
  Lines 149--150 in every process: \<open>if (du_max < tolerance) break;\<close>. Either every
  process leaves the loop, or every process goes on, or they disagree.
\<close>

datatype verdict = All_break | All_continue | Disagree

definition convergence_test :: "real \<Rightarrow> state list \<Rightarrow> verdict" where
  "convergence_test tol ws =
     (if list_all (\<lambda>s. du_max s < tol) ws then All_break
      else if list_ex (\<lambda>s. du_max s < tol) ws then Disagree
      else All_continue)"

text \<open>
  The loop \<open>while (N < MAX_ITERATIONS) { sweep; if (du_max < tolerance) break; N++; }\<close>
  of all processes together. \<open>Ns\<close> holds each process's counter \<open>N\<close>. A sweep needs
  every process (its receives and the all-reduce block otherwise): when only some
  processes enter the loop body, or only some leave it, the others wait for ever.
\<close>

function jacobi_iterations ::
  "real \<Rightarrow> real \<Rightarrow> int list \<Rightarrow> state list \<Rightarrow> error + int list \<times> state list" where
  "jacobi_iterations dx tol Ns ws =
     (if list_all (\<lambda>n. \<not> n < MAX_ITERATIONS) Ns then Inr (Ns, ws)
      else if list_ex (\<lambda>n. \<not> n < MAX_ITERATIONS) Ns then Inl Deadlock
      else case global_sweep dx ws of
             Inl e \<Rightarrow> Inl e
           | Inr ws' \<Rightarrow>
               (case convergence_test tol ws' of
                  All_break \<Rightarrow> Inr (Ns, ws')
                | Disagree \<Rightarrow> Inl Deadlock
                | All_continue \<Rightarrow> jacobi_iterations dx tol (map (\<lambda>n. n + 1) Ns) ws'))"
  by pat_completeness auto

termination
proof (relation "measure (\<lambda>(dx, tol, Ns, ws). sum_list (map (\<lambda>n. nat (MAX_ITERATIONS - n)) Ns))")
  show "wf (measure (\<lambda>(dx :: real, tol :: real, Ns, ws :: state list).
              sum_list (map (\<lambda>n. nat (MAX_ITERATIONS - n)) Ns)))"
    by simp
next
  fix dx tol :: real and Ns :: "int list" and ws x2 :: "state list"
  assume some: "\<not> list_all (\<lambda>n. \<not> n < MAX_ITERATIONS) Ns"
    and none: "\<not> list_ex (\<lambda>n. \<not> n < MAX_ITERATIONS) Ns"
  have dec: "xs \<noteq> [] \<Longrightarrow> \<forall>n\<in>set xs. n < MAX_ITERATIONS \<Longrightarrow>
          sum_list (map (\<lambda>n. nat (MAX_ITERATIONS - (n + 1))) xs)
            < sum_list (map (\<lambda>n. nat (MAX_ITERATIONS - n)) xs)" for xs
  proof (induction xs)
    case Nil
    then show ?case by simp
  next
    case (Cons x xs)
    then show ?case by (cases "xs = []") auto
  qed
  have "Ns \<noteq> []" using some by auto
  moreover have "\<forall>n\<in>set Ns. n < MAX_ITERATIONS" using none by (simp add: list_ex_iff)
  ultimately show "((dx, tol, map (\<lambda>n. n + 1) Ns, x2), (dx, tol, Ns, ws))
        \<in> measure (\<lambda>(dx, tol, Ns, ws). sum_list (map (\<lambda>n. nat (MAX_ITERATIONS - n)) Ns))"
    using dec [of Ns] by (simp add: comp_def)
qed

subsection \<open>After the loop: failure report or output (lines 155--170, 222--249)\<close>

text \<open>
  What one process leaves behind: its exit status, the failure report (the final
  \<open>du_max\<close> and the tolerance, printed by rank 0 only) and the file \<open>jacobi_<rank>.txt\<close>
  as the list of \<open>(x, u)\<close> pairs written to it. \<open>serial_output\<close> is the constant
  \<open>false\<close>, so only the per-rank branch is reachable.
\<close>

record outcome =
  exit_status :: int
  failure_report :: "(real \<times> real) option"
  artifact :: "(real \<times> real) list option"

definition write_output :: "int \<Rightarrow> int \<Rightarrow> real \<Rightarrow> state \<Rightarrow> error + (real \<times> real) list" where
  "write_output num_procs rank dx s =
     bindE (if rank = 0 then bindE (rd (u s) 0) (\<lambda>v. Inr [(0, v)]) else Inr []) (\<lambda>p1.
     bindE (collect (\<lambda>i. bindE (rd (u s) i) (\<lambda>v. Inr (real_of_int i * dx, v)))
              [1..end_index s - 1]) (\<lambda>p2.
     bindE (if rank = num_procs - 1
            then bindE (rd (u s) (end_index s + 1)) (\<lambda>v. Inr [(b_bound, v)])
            else Inr []) (\<lambda>p3.
       Inr (p1 @ p2 @ p3))))"

definition finish :: "int \<Rightarrow> int \<Rightarrow> real \<Rightarrow> real \<Rightarrow> int \<Rightarrow> state \<Rightarrow> error + outcome" where
  "finish num_procs rank dx tol n s =
     (if n \<ge> MAX_ITERATIONS
      then Inr \<lparr>exit_status = 1,
                failure_report = (if rank = 0 then Some (du_max s, tol) else None),
                artifact = None\<rparr>
      else bindE (write_output num_procs rank dx s) (\<lambda>out.
             Inr \<lparr>exit_status = 0, failure_report = None, artifact = Some out\<rparr>))"

text \<open>
  The whole run from the states after initialisation. \<open>Ns\<close> is the value each process
  finds in \<open>N\<close> when it reaches the loop: the 1D program declares \<open>N\<close> (line 33) and
  never assigns it before \<open>while (N < MAX_ITERATIONS)\<close>.
\<close>

definition run :: "real \<Rightarrow> real \<Rightarrow> int list \<Rightarrow> state list \<Rightarrow> error + outcome list" where
  "run dx tol Ns ws =
     bindE (jacobi_iterations dx tol Ns ws) (\<lambda>(Ns', ws').
       collect (\<lambda>(r, n, s). finish (int (length ws')) r dx tol n s)
         (with_ranks (zip Ns' ws')))"

section \<open>The 2D program (second source file)\<close>

text \<open>
  Grids are arrays of row pointers: \<open>u[i][j]\<close> reads row \<open>i\<close>, then cell \<open>j\<close>.
  \<open>num_points\<close> is the constant 20 there (line 62).
\<close>

definition num_points_2d :: int where
  "num_points_2d = 20"

record state2 =
  rank_num_points :: int
  u2 :: "real list list"
  u_old2 :: "real list list"
  f2 :: "real list list"
  buffer :: "real list"
  du_max_proc2 :: real

text \<open>
  Lines 77--86: \<open>buffer\<close> has \<open>rank_num_points + 2\<close> doubles, and each of \<open>u\<close>,
  \<open>u_old\<close> and \<open>f\<close> has \<open>rank_num_points + 2\<close> row pointers, every row with
  \<open>rank_num_points + 2\<close> doubles. \<open>junk\<close> is the indeterminate content of fresh memory.
\<close>

definition allocate2 :: "int \<Rightarrow> (nat \<Rightarrow> real) \<Rightarrow> state2" where
  "allocate2 rnp junk =
     \<lparr>rank_num_points = rnp,
      u2 = replicate (nat (rnp + 2)) (malloc (rnp + 2) junk),
      u_old2 = replicate (nat (rnp + 2)) (malloc (rnp + 2) junk),
      f2 = replicate (nat (rnp + 2)) (malloc (rnp + 2) junk),
      buffer = malloc (rnp + 2) junk, du_max_proc2 = junk 0\<rparr>"

definition rd2 :: "'a list list \<Rightarrow> int \<Rightarrow> int \<Rightarrow> error + 'a" where
  "rd2 g i j = bindE (rd g i) (\<lambda>row. rd row j)"

definition wr2 :: "'a list list \<Rightarrow> int \<Rightarrow> int \<Rightarrow> 'a \<Rightarrow> error + 'a list list" where
  "wr2 g i j v = bindE (rd g i) (\<lambda>row. bindE (wr row j v) (\<lambda>row'. wr g i row'))"

subsection \<open>Single-process guard (lines 53--59)\<close>

text \<open>
  \<open>main\<close> starts with the guard; \<open>rest\<close> stands for everything after it. The result
  is what the process printed and its exit status.
\<close>

definition main_2d :: "int \<Rightarrow> (string list \<times> int) \<Rightarrow> string list \<times> int" where
  "main_2d num_procs rest =
     (if num_procs = 1
      then ([''This program only handles more than one process.''], 0)
      else rest)"

subsection \<open>Relaxation (lines 169--175)\<close>

text \<open>
  The loop bounds are \<open>num_points\<close> (the parameter \<open>np\<close>) for \<open>i\<close> and
  \<open>rank_num_points\<close> for \<open>j\<close>.
\<close>

definition relax_point2 :: "real \<Rightarrow> int \<times> int \<Rightarrow> state2 \<Rightarrow> error + state2" where
  "relax_point2 dx ij s =
     (let i = fst ij; j = snd ij in
      bindE (rd2 (u_old2 s) (i - 1) j) (\<lambda>w.
      bindE (rd2 (u_old2 s) (i + 1) j) (\<lambda>e.
      bindE (rd2 (u_old2 s) i (j - 1)) (\<lambda>l.
      bindE (rd2 (u_old2 s) i (j + 1)) (\<lambda>h.
      bindE (rd2 (f2 s) i j) (\<lambda>fij.
      bindE (wr2 (u2 s) i j (0.25 * (w + e + l + h - dx ^ 2 * fij))) (\<lambda>u'.
      bindE (rd2 u' i j) (\<lambda>uij.
      bindE (rd2 (u_old2 s) i j) (\<lambda>oij.
        Inr (s\<lparr>u2 := u', du_max_proc2 := max (du_max_proc2 s) \<bar>uij - oij\<bar>\<rparr>))))))))))"

definition relax_over2 :: "real \<Rightarrow> (int \<times> int) list \<Rightarrow> state2 \<Rightarrow> error + state2" where
  "relax_over2 dx ps s = for_each ps (relax_point2 dx) (s\<lparr>du_max_proc2 := 0\<rparr>)"

definition apply_jacobi2 :: "real \<Rightarrow> int \<Rightarrow> state2 \<Rightarrow> error + state2" where
  "apply_jacobi2 dx np s =
     relax_over2 dx (List.product [1..np] [1..rank_num_points s]) s"

section \<open>The 1D update rule and the serial sweep as the specification writes them\<close>

definition stencil_1d :: "real \<Rightarrow> real list \<Rightarrow> real list \<Rightarrow> int \<Rightarrow> real" where
  "stencil_1d dx prev src i =
     0.5 * (prev ! nat (i - 1) + prev ! nat (i + 1) - dx\<^sup>2 * src ! nat i)"

text \<open>
  A serial Jacobi sweep on one array with its two boundary cells: every interior point
  from the old values, the boundary cells kept.
\<close>

definition serial_jacobi :: "real \<Rightarrow> real list \<Rightarrow> real list \<Rightarrow> real list" where
  "serial_jacobi dx src v =
     map (\<lambda>k. if 1 \<le> k \<and> k + 1 < length v then stencil_1d dx v src (int k) else v ! k)
       [0..<length v]"

section \<open>Basic facts about the checked operations\<close>

lemma bindE_simps [simp]: "bindE (Inr x) k = k x" "bindE (Inl e) k = Inl e"
  by (simp_all add: bindE_def)

lemma c_int_ok: "INT_MIN \<le> x \<Longrightarrow> x \<le> INT_MAX \<Longrightarrow> c_int x = Inr x"
  by (simp add: c_int_def)

lemma div_le_self_int: "0 \<le> (x::int) \<Longrightarrow> 0 < y \<Longrightarrow> x div y \<le> x"
  using zdiv_mono2 [of x 1 y] by simp

lemma c_div_pos:
  assumes "0 \<le> x" "0 < y" "x \<le> INT_MAX"
  shows "c_div x y = Inr (x div y)"
proof -
  have le: "x div y \<le> x" using assms by (simp add: div_le_self_int)
  have ge: "0 \<le> x div y" using assms by (simp add: pos_imp_zdiv_nonneg_iff)
  have e: "sgn x * sgn y * (\<bar>x\<bar> div \<bar>y\<bar>) = x div y"
    using assms by (cases "x = 0") (simp_all add: sgn_if)
  have "c_int (x div y) = Inr (x div y)"
    using le ge assms(3) by (intro c_int_ok) (simp_all add: INT_MIN_def)
  then show ?thesis using assms(2) unfolding c_div_def e by simp
qed

lemma ppp_lower: 
  assumes "0 < (P::int)" shows "N \<le> P * ((N + P - 1) div P)"
proof -
  have "N + P - 1 = P * ((N + P - 1) div P) + (N + P - 1) mod P" by simp
  moreover have "(N + P - 1) mod P \<le> P - 1" using assms
    by (simp add: zle_diff1_eq)
  ultimately show ?thesis by linarith
qed

lemma ppp_upper: 
  assumes "0 < (P::int)" shows "P * ((N + P - 1) div P) \<le> N + P - 1"
proof -
  have "N + P - 1 = P * ((N + P - 1) div P) + (N + P - 1) mod P" by simp
  moreover have "0 \<le> (N + P - 1) mod P" using assms by simp
  ultimately show ?thesis by linarith
qed

lemma ceil_div: 
  assumes "0 < (P::int)" shows "(N + P - 1) div P = \<lceil>real_of_int N / real_of_int P\<rceil>"
proof -
  let ?c = "(N + P - 1) div P"
  have p: "0 < real_of_int P" using assms by simp
  have "real_of_int N \<le> real_of_int (P * ?c)" using ppp_lower [OF assms, of N] by linarith
  then have u: "real_of_int N / real_of_int P \<le> real_of_int ?c"
    using p by (simp add: divide_le_eq mult.commute)
  have "P * ?c \<le> N + P - 1" by (rule ppp_upper [OF assms])
  then have "P * (?c - 1) < N" by (simp add: algebra_simps)
  then have "real_of_int (P * (?c - 1)) < real_of_int N" by linarith
  then have l: "real_of_int ?c - 1 < real_of_int N / real_of_int P"
    using p by (simp add: less_divide_eq mult.commute)
  show ?thesis using l u by (simp add: ceiling_unique)
qed

section \<open>The partition\<close>

lemma decompose_ok:
  assumes "1 \<le> N" "1 \<le> P" "N + P \<le> INT_MAX" "0 \<le> r" "r < P"
  defines "c \<equiv> (N + P - 1) div P"
  shows "decompose N P r =
           Inr \<lparr>points_per_proc = c, first_index = r * c, last_index = min ((r + 1) * c) N - 1,
                start_index = r * c + 1, end_index = min ((r + 1) * c) N\<rparr>"
proof -
  have P: "0 < P" using assms by simp
  have lo: "N \<le> P * c" unfolding c_def by (rule ppp_lower [OF P])
  have up: "P * c \<le> N + P - 1" unfolding c_def by (rule ppp_upper [OF P])
  have c1: "1 \<le> c"
  proof (rule ccontr)
    assume "\<not> 1 \<le> c"
    then have "c \<le> 0" by simp
    then have "P * c \<le> 0" using P by (simp add: mult_le_0_iff)
    then show False using lo assms(1) by simp
  qed
  have m: "INT_MAX = 2147483647" by (simp add: INT_MAX_def)
  have rc: "r * c \<le> (r + 1) * c" using c1 by (simp add: algebra_simps)
  have r1c: "(r + 1) * c \<le> P * c" using assms(5) c1 by (simp add: mult_right_mono)
  have rc0: "0 \<le> r * c" using assms(4) c1 by simp
  have s1: "c_int (N + P) = Inr (N + P)"
    using assms by (intro c_int_ok) (simp_all add: INT_MIN_def)
  have s2: "c_int (N + P - 1) = Inr (N + P - 1)"
    using assms by (intro c_int_ok) (simp_all add: INT_MIN_def)
  have s3: "c_div (N + P - 1) P = Inr c"
    unfolding c_def using assms by (intro c_div_pos) simp_all
  have s4: "c_int (r * c) = Inr (r * c)"
    using rc0 rc r1c up assms(3) by (intro c_int_ok) (simp_all add: INT_MIN_def)
  have s5: "c_int (r + 1) = Inr (r + 1)"
    using assms by (intro c_int_ok) (simp_all add: INT_MIN_def)
  have s6: "c_int ((r + 1) * c) = Inr ((r + 1) * c)"
    using rc0 rc r1c up assms(3) by (intro c_int_ok) (simp_all add: INT_MIN_def)
  have s7: "c_int (min ((r + 1) * c) N - 1) = Inr (min ((r + 1) * c) N - 1)"
    using rc0 rc assms(1,2,3) by (intro c_int_ok) (simp_all add: INT_MIN_def)
  have s8: "c_int (r * c + 1) = Inr (r * c + 1)"
    using rc0 rc r1c up assms(3) by (intro c_int_ok) (simp_all add: INT_MIN_def)
  show ?thesis
    unfolding decompose_def by (simp add: s1 s2 s3 s4 s5 s6 s7 s8)
qed

lemma decompose_2d_ok:
  assumes "1 \<le> N" "1 \<le> P" "N + P \<le> INT_MAX" "0 \<le> r" "r < P"
  defines "c \<equiv> (N + P - 1) div P"
  shows "decompose_2d N P r = Inr (min ((r + 1) * c) N - r * c, r * c + 1, min ((r + 1) * c) N)"
proof -
  have P: "0 < P" using assms by simp
  have lo: "N \<le> P * c" unfolding c_def by (rule ppp_lower [OF P])
  have up: "P * c \<le> N + P - 1" unfolding c_def by (rule ppp_upper [OF P])
  have c1: "1 \<le> c"
  proof (rule ccontr)
    assume "\<not> 1 \<le> c"
    then have "c \<le> 0" by simp
    then have "P * c \<le> 0" using P by (simp add: mult_le_0_iff)
    then show False using lo assms(1) by simp
  qed
  have rc: "r * c \<le> (r + 1) * c" using c1 by (simp add: algebra_simps)
  have r1c: "(r + 1) * c \<le> P * c" using assms(5) c1 by (simp add: mult_right_mono)
  have rc0: "0 \<le> r * c" using assms(4) c1 by simp
  have s1: "c_int (N + P) = Inr (N + P)"
    using assms by (intro c_int_ok) (simp_all add: INT_MIN_def)
  have s2: "c_int (N + P - 1) = Inr (N + P - 1)"
    using assms by (intro c_int_ok) (simp_all add: INT_MIN_def)
  have s3: "c_div (N + P - 1) P = Inr c"
    unfolding c_def using assms by (intro c_div_pos) simp_all
  have s4: "c_int (r * c) = Inr (r * c)"
    using rc0 rc r1c up assms(3) by (intro c_int_ok) (simp_all add: INT_MIN_def)
  have s5: "c_int (r * c + 1) = Inr (r * c + 1)"
    using rc0 rc r1c up assms(3) by (intro c_int_ok) (simp_all add: INT_MIN_def)
  have s6: "c_int (r + 1) = Inr (r + 1)"
    using assms by (intro c_int_ok) (simp_all add: INT_MIN_def)
  have s7: "c_int ((r + 1) * c) = Inr ((r + 1) * c)"
    using rc0 rc r1c up assms(3) by (intro c_int_ok) (simp_all add: INT_MIN_def)
  have s8: "c_int (min ((r + 1) * c) N - (r * c + 1)) = Inr (min ((r + 1) * c) N - (r * c + 1))"
    using rc0 rc r1c up assms(1,2,3) by (intro c_int_ok) (simp_all add: INT_MIN_def INT_MAX_def)
  have s9: "c_int (min ((r + 1) * c) N - r * c) = Inr (min ((r + 1) * c) N - r * c)"
    using rc0 rc r1c up assms(1,2,3) by (intro c_int_ok) (simp_all add: INT_MIN_def INT_MAX_def)
  show ?thesis
    unfolding decompose_2d_def by (simp add: s1 s2 s3 s4 s5 s6 s7 s8 s9)
qed

lemma block_eq:
  assumes "1 \<le> N" "1 \<le> P" "N + P \<le> INT_MAX" "0 \<le> r" "r < P"
  shows "block N P r = [r * ((N + P - 1) div P)..min ((r + 1) * ((N + P - 1) div P)) N - 1]"
  unfolding block_def by (simp add: decompose_ok [OF assms])

lemma blocks_prefix:
  assumes "1 \<le> N" "1 \<le> P" "N + P \<le> INT_MAX" "int k \<le> P"
  shows "concat (map (block N P) (map int [0..<k])) = [0..min (int k * ((N + P - 1) div P)) N - 1]"
  using assms(4)
proof (induction k)
  case 0
  then show ?case using assms(1) by simp
next
  case (Suc k)
  let ?c = "(N + P - 1) div P"
  have P: "0 < P" using assms by simp
  have lo: "N \<le> P * ?c" by (rule ppp_lower [OF P])
  have c0: "0 \<le> ?c" using assms by (simp add: pos_imp_zdiv_nonneg_iff)
  have k: "int k < P" "int k \<le> P" using Suc.prems by simp_all
  have b: "block N P (int k) = [int k * ?c..min ((int k + 1) * ?c) N - 1]"
    using block_eq [OF assms(1,2,3), of "int k"] k by simp
  have ih: "concat (map (block N P) (map int [0..<k])) = [0..min (int k * ?c) N - 1]"
    using Suc.IH k by simp
  have kc: "0 \<le> int k * ?c" using c0 by simp
  have step: "int k * ?c \<le> (int k + 1) * ?c" using c0 by (simp add: algebra_simps)
  have "[0..min (int k * ?c) N - 1] @ [int k * ?c..min ((int k + 1) * ?c) N - 1]
          = [0..min ((int k + 1) * ?c) N - 1]"
  proof (cases "int k * ?c \<le> min ((int k + 1) * ?c) N - 1")
    case True
    then have m: "min (int k * ?c) N = int k * ?c" using step by simp
    have "[0..min ((int k + 1) * ?c) N - 1]
           = [0..int k * ?c - 1] @ [int k * ?c..min ((int k + 1) * ?c) N - 1]"
      using kc True by (intro upto_split1) simp_all
    then show ?thesis using m by simp
  next
    case False
    then have lt: "min ((int k + 1) * ?c) N - 1 < int k * ?c" by linarith
    have e: "[int k * ?c..min ((int k + 1) * ?c) N - 1] = []"
      using lt by (simp only: upto_empty)
    have "min (int k * ?c) N = min ((int k + 1) * ?c) N" using lt step by linarith
    then show ?thesis using e by simp
  qed
  then show ?case using ih b by (simp add: algebra_simps)
qed

lemma upto_as_map_nat: "[0..int n - 1] = map int [0..<n]"
proof (induction n)
  case 0
  then show ?case by simp
next
  case (Suc n)
  have "[0..int (Suc n) - 1] = [0..int n - 1] @ [int n]"
    using upto_rec2 [of 0 "int n"] by simp
  then show ?case using Suc.IH by simp
qed

lemma upto_as_map: "0 \<le> P \<Longrightarrow> [0..P - 1] = map int [0..<nat P]"
  using upto_as_map_nat [of "nat P"] by simp

lemma blocks_all:
  assumes "1 \<le> N" "1 \<le> P" "N + P \<le> INT_MAX"
  shows "concat (map (block N P) [0..P - 1]) = [0..N - 1]"
proof -
  have P: "0 < P" using assms by simp
  have lo: "N \<le> P * ((N + P - 1) div P)" by (rule ppp_lower [OF P])
  have "concat (map (block N P) (map int [0..<nat P]))
          = [0..min (int (nat P) * ((N + P - 1) div P)) N - 1]"
    using assms by (intro blocks_prefix) simp_all
  then show ?thesis using lo P by (simp add: upto_as_map)
qed

text \<open>
  Claim C3, as amended. For \<open>N \<ge> 1\<close> interior points and \<open>P \<ge> 1\<close> workers with
  \<open>N + P\<close> inside the range of \<open>int\<close>, worker \<open>r\<close> is assigned the half-open range
  \<open>[r * \<lceil>N/P\<rceil>, min ((r + 1) * \<lceil>N/P\<rceil>) N)\<close> of 0-based interior indices (the loop
  indices are the same range shifted by one); the blocks of ranks \<open>0, \<dots>, P - 1\<close> in
  this order concatenate to \<open>0, \<dots>, N - 1\<close>, so they are contiguous, disjoint and
  ordered by rank, and their sizes sum to \<open>N\<close>. The 2D program computes the same loop
  indices.
\<close>

theorem partition_blocks:
  assumes "1 \<le> N" "1 \<le> P" "N + P \<le> INT_MAX" "0 \<le> r" "r < P"
  shows "(\<exists>d. decompose N P r = Inr d
            \<and> points_per_proc d = \<lceil>real_of_int N / real_of_int P\<rceil>
            \<and> first_index d = r * \<lceil>real_of_int N / real_of_int P\<rceil>
            \<and> last_index d + 1 = min ((r + 1) * \<lceil>real_of_int N / real_of_int P\<rceil>) N
            \<and> start_index d = first_index d + 1 \<and> end_index d = last_index d + 1)
       \<and> set (block N P r) = {r * \<lceil>real_of_int N / real_of_int P\<rceil>
                                 ..< min ((r + 1) * \<lceil>real_of_int N / real_of_int P\<rceil>) N}
       \<and> concat (map (block N P) [0..P - 1]) = [0..N - 1]
       \<and> (\<Sum>q\<leftarrow>[0..P - 1]. int (length (block N P q))) = N
       \<and> (\<exists>d n. decompose N P r = Inr d
              \<and> decompose_2d N P r = Inr (n, start_index d, end_index d))"
proof -
  have P: "0 < P" using assms by simp
  have c: "\<lceil>real_of_int N / real_of_int P\<rceil> = (N + P - 1) div P"
    using ceil_div [OF P, of N] by simp
  have d: "\<exists>d. decompose N P r = Inr d
            \<and> points_per_proc d = \<lceil>real_of_int N / real_of_int P\<rceil>
            \<and> first_index d = r * \<lceil>real_of_int N / real_of_int P\<rceil>
            \<and> last_index d + 1 = min ((r + 1) * \<lceil>real_of_int N / real_of_int P\<rceil>) N
            \<and> start_index d = first_index d + 1 \<and> end_index d = last_index d + 1"
    unfolding c by (simp add: decompose_ok [OF assms])
  have s: "set (block N P r) = {r * \<lceil>real_of_int N / real_of_int P\<rceil>
                                 ..< min ((r + 1) * \<lceil>real_of_int N / real_of_int P\<rceil>) N}"
    unfolding c block_eq [OF assms] by auto
  have a: "concat (map (block N P) [0..P - 1]) = [0..N - 1]"
    by (rule blocks_all [OF assms(1,2,3)])
  have "(\<Sum>q\<leftarrow>[0..P - 1]. int (length (block N P q)))
          = int (length (concat (map (block N P) [0..P - 1])))"
    by (simp add: length_concat comp_def flip: sum_list_of_nat)
  also have "\<dots> = N" unfolding a using assms(1) by simp
  finally have l: "(\<Sum>q\<leftarrow>[0..P - 1]. int (length (block N P q))) = N" .
  have t: "\<exists>d n. decompose N P r = Inr d
              \<and> decompose_2d N P r = Inr (n, start_index d, end_index d)"
    by (simp add: decompose_ok [OF assms] decompose_2d_ok [OF assms])
  show ?thesis using d s a l t by blast
qed

theorem partition_blocks_witness:
  "set (block 10 3 2) = {8..<10} \<and> concat (map (block 10 3) [0..2]) = [0..9]
   \<and> (\<Sum>q\<leftarrow>[0..2]. int (length (block 10 3 q))) = 10"
  using partition_blocks [of 10 3 2] by (simp add: INT_MAX_def)

text \<open>
  As stated (every \<open>N \<ge> 1\<close>, \<open>P \<ge> 1\<close>) the claim fails where
  \<open>num_points + num_procs - 1\<close> leaves the range of \<open>int\<close>: no range is assigned.
\<close>

theorem partition_overflow:
  "(1::int) \<le> 2147483647 \<and> (1::int) \<le> 2
   \<and> decompose 2147483647 2 0 = Inl IntOverflow
   \<and> set (block 2147483647 2 0)
        \<noteq> {0 * \<lceil>real_of_int 2147483647 / real_of_int 2\<rceil>
             ..< min ((0 + 1) * \<lceil>real_of_int 2147483647 / real_of_int 2\<rceil>) 2147483647}"
proof -
  have d: "decompose 2147483647 2 0 = Inl IntOverflow"
    by (simp add: decompose_def c_int_def INT_MAX_def INT_MIN_def)
  have "(0::int) \<in> {0 * \<lceil>real_of_int 2147483647 / real_of_int 2\<rceil>
             ..< min ((0 + 1) * \<lceil>real_of_int 2147483647 / real_of_int 2\<rceil>) 2147483647}"
    by simp
  moreover have "set (block 2147483647 2 0) = {}"
    by (simp add: block_def d)
  ultimately show ?thesis using d by (metis empty_iff one_le_numeral)
qed

section \<open>Evaluations of the 1D program\<close>

lemma rd_Cons: "rd (x # xs) i = (if i = 0 then Inr x else if i < 0 then Inl OutOfBounds else rd xs (i - 1))"
  by (auto simp: rd_def nat_diff_distrib' nth_Cons')

lemma rd_Nil: "rd [] i = Inl OutOfBounds"
  by (simp add: rd_def)

lemma wr_Cons:
  "wr (x # xs) i v =
     (if i = 0 then Inr (v # xs) else if i < 0 then Inl OutOfBounds
      else bindE (wr xs (i - 1) v) (\<lambda>ys. Inr (x # ys)))"
  by (auto simp: wr_def nat_diff_distrib' list_update_code split: nat.splits)

lemma wr_Nil: "wr [] i v = Inl OutOfBounds"
  by (simp add: wr_def)

lemmas eval_array = rd_Cons rd_Nil wr_Cons wr_Nil

lemma malloc_4: "malloc 4 junk = [junk 0, junk 1, junk 2, junk 3]"
  by (simp add: malloc_def upt_rec numeral_eq_Suc)

lemma decompose_4_2_1:
  "decompose 4 2 1 = Inr \<lparr>points_per_proc = 2, first_index = 2, last_index = 3, start_index = 3, end_index = 4\<rparr>"
  by (simp add: decompose_def c_int_def c_div_def INT_MAX_def INT_MIN_def)

text \<open>
  Claim C10 (every access to \<open>u\<close>, \<open>u_old\<close> and \<open>f\<close> in the 1D program uses an index
  in \<open>[0, points_per_proc + 1]\<close>) against the code. With 4 points on 2 processes, rank 1
  has \<open>points_per_proc = 2\<close>, so arrays of 4 cells, and \<open>start_index = 3\<close>,
  \<open>end_index = 4\<close>: the initialisation loop indexes the local arrays with these global
  indices and writes \<open>f[4]\<close>, outside the allocation.
\<close>

theorem startup_out_of_bounds:
  "decompose 4 2 1 = Inr \<lparr>points_per_proc = 2, first_index = 2, last_index = 3,
                           start_index = 3, end_index = 4\<rparr>
   \<and> startup 4 2 1 junk = Inl OutOfBounds"
  by (simp add: startup_def grid_spacing_def c_int_def INT_MAX_def INT_MIN_def decompose_4_2_1
      allocate_def malloc_4 initialize_def init_point_def upto_rec1 eval_array Let_def)

text \<open>
  Claim C8 (each worker writes exactly its owned points) against the code. One process,
  3 points, \<open>dx = 1/4\<close>: the file holds the boundary cell \<open>u[0]\<close>, the points \<open>u[1]\<close> and
  \<open>u[2]\<close>, and the boundary cell \<open>u[4]\<close>. The owned point \<open>u[3]\<close> is not written: the
  loop runs while \<open>i < end_index\<close>.
\<close>

theorem output_misses_last_point:
  "write_output 1 0 (1 / 4)
     \<lparr>points_per_proc = 3, first_index = 0, last_index = 2, start_index = 1, end_index = 3,
      u = [10, 11, 12, 13, 14], u_old = [10, 11, 12, 13, 14], f = [1, 1, 1, 1, 1],
      du_max_proc = 0, du_max = 0\<rparr>
   = Inr [(0, 10), (1 / 4, 11), (1 / 2, 12), (1, 14)]"
  by (simp add: write_output_def upto_rec1 eval_array b_bound_def)


text \<open>
  Claim C1 (each worker sends its lowest and highest owned point, so that every ghost
  cell receives the neighbour's boundary value) against the code. Two processes with 2
  points each, cells 0 and 3 being the ghost cells: rank 1 sends \<open>u_old[0]\<close> (its ghost
  cell, 77) and rank 0 sends \<open>u_old[end_index + 1]\<close> (its ghost cell, 99). After the
  exchange the two ghost cells have changed places; neither holds the neighbour's
  boundary value (3 and 2).
\<close>

theorem exchange_sends_ghost_cells:
  "post_sends 2 1
     \<lparr>points_per_proc = 2, first_index = 2, last_index = 3, start_index = 3, end_index = 4,
      u = [77, 3, 4, 5], u_old = [77, 3, 4, 5], f = [1, 1, 1, 1],
      du_max_proc = 0, du_max = 0\<rparr>
   = Inr [\<lparr>msg_src = 1, msg_dest = 0, msg_tag = 1, payload = 77\<rparr>]
   \<and> post_sends 2 0
     \<lparr>points_per_proc = 2, first_index = 0, last_index = 1, start_index = 1, end_index = 2,
      u = [0, 1, 2, 99], u_old = [0, 1, 2, 99], f = [1, 1, 1, 1],
      du_max_proc = 0, du_max = 0\<rparr>
   = Inr [\<lparr>msg_src = 0, msg_dest = 1, msg_tag = 2, payload = 99\<rparr>]
   \<and> halo_exchange
     [\<lparr>points_per_proc = 2, first_index = 0, last_index = 1, start_index = 1, end_index = 2,
       u = [0, 1, 2, 99], u_old = [0, 1, 2, 99], f = [1, 1, 1, 1],
       du_max_proc = 0, du_max = 0\<rparr>,
      \<lparr>points_per_proc = 2, first_index = 2, last_index = 3, start_index = 3, end_index = 4,
       u = [77, 3, 4, 5], u_old = [77, 3, 4, 5], f = [1, 1, 1, 1],
       du_max_proc = 0, du_max = 0\<rparr>]
   = Inr
     [\<lparr>points_per_proc = 2, first_index = 0, last_index = 1, start_index = 1, end_index = 2,
       u = [0, 1, 2, 99], u_old = [0, 1, 2, 77], f = [1, 1, 1, 1],
       du_max_proc = 0, du_max = 0\<rparr>,
      \<lparr>points_per_proc = 2, first_index = 2, last_index = 3, start_index = 3, end_index = 4,
       u = [77, 3, 4, 5], u_old = [99, 3, 4, 5], f = [1, 1, 1, 1],
       du_max_proc = 0, du_max = 0\<rparr>]"
  by (simp add: halo_exchange_def with_ranks_def upto_rec1 post_sends_def receive_halo_def
      mpi_recv_def eval_array)

text \<open>
  Claim C6 (every worker reaches the same verdict and exits) against the code. The 1D
  program never assigns \<open>N\<close> before the loop. When one process finds 0 there and
  another finds 10000, the second skips the loop and exits with the failure status,
  while the first waits in its first sweep for a message that is never sent.
\<close>

theorem unequal_counters_hang:
  "jacobi_iterations dx tol [0, 10000] [s0, s1] = Inl Deadlock
   \<and> run dx tol [0, 10000] [s0, s1] = Inl Deadlock"
proof -
  have "jacobi_iterations dx tol [0, 10000] [s0, s1] = Inl Deadlock"
    by (subst jacobi_iterations.simps) (simp add: MAX_ITERATIONS_def)
  then show ?thesis by (simp add: run_def)
qed

section \<open>Loops\<close>

lemma for_each_append:
  "for_each (xs @ ys) body s = bindE (for_each xs body s) (for_each ys body)"
  by (induction xs arbitrary: s) (auto simp: bindE_def split: sum.splits)

section \<open>The 1D relaxation kernel\<close>

text \<open>The effect of the loop on the current iterate and on the local delta, as folds.\<close>

lemma relax_point_eq:
  assumes "1 \<le> i" "i + 1 < int (length (u_old s))"
    and "length (u s) = length (u_old s)" "length (f s) = length (u_old s)"
  shows "relax_point dx i s =
           Inr (s\<lparr>u := (u s)[nat i := stencil_1d dx (u_old s) (f s) i],
                  du_max_proc := max (du_max_proc s)
                    \<bar>stencil_1d dx (u_old s) (f s) i - u_old s ! nat i\<bar>\<rparr>)"
  using assms by (simp add: relax_point_def rd_def wr_def stencil_1d_def)

lemma length_fold_update:
  "length (fold (\<lambda>i v. v[nat i := g i]) xs v0) = length v0"
  by (induction xs arbitrary: v0) simp_all

lemma nth_fold_update:
  assumes "\<forall>i\<in>set xs. 0 \<le> i" "k < length v0"
  shows "fold (\<lambda>i v. v[nat i := g i]) xs v0 ! k = (if int k \<in> set xs then g (int k) else v0 ! k)"
  using assms
proof (induction xs arbitrary: v0 rule: rev_induct)
  case Nil
  then show ?case by simp
next
  case (snoc x xs)
  have k: "k < length (fold (\<lambda>i v. v[nat i := g i]) xs v0)"
    using snoc.prems by (simp add: length_fold_update)
  have x: "0 \<le> x" using snoc.prems by simp
  show ?case
  proof (cases "nat x = k")
    case True
    then have "x = int k" using x by simp
    then show ?thesis using k by simp
  next
    case False
    then have "x \<noteq> int k" by auto
    then show ?thesis using False snoc.IH [of v0] snoc.prems by simp
  qed
qed

lemma fold_max_set:
  "fold (\<lambda>i m. max m (d i)) xs (m0 :: real) = Max (insert m0 (d ` set xs))"
proof (induction xs arbitrary: m0)
  case Nil
  then show ?case by simp
next
  case (Cons x xs)
  have "Max (insert (max m0 (d x)) (d ` set xs)) = Max (insert m0 (insert (d x) (d ` set xs)))"
    by (cases "set xs = {}") (simp_all add: max.assoc)
  then show ?case using Cons.IH [of "max m0 (d x)"] by simp
qed

lemma relax_loop:
  assumes "\<forall>i\<in>set xs. 1 \<le> i \<and> i + 1 < int (length (u_old s))"
    and "length (u s) = length (u_old s)" "length (f s) = length (u_old s)"
  shows "for_each xs (relax_point dx) s =
           Inr (s\<lparr>u := fold (\<lambda>i v. v[nat i := stencil_1d dx (u_old s) (f s) i]) xs (u s),
                  du_max_proc := fold (\<lambda>i m. max m
                     \<bar>stencil_1d dx (u_old s) (f s) i - u_old s ! nat i\<bar>) xs (du_max_proc s)\<rparr>)"
  using assms
proof (induction xs arbitrary: s)
  case Nil
  then show ?case by simp
next
  case (Cons x xs)
  let ?t = "s\<lparr>u := (u s)[nat x := stencil_1d dx (u_old s) (f s) x],
               du_max_proc := max (du_max_proc s)
                 \<bar>stencil_1d dx (u_old s) (f s) x - u_old s ! nat x\<bar>\<rparr>"
  have step: "relax_point dx x s = Inr ?t"
    using Cons.prems by (intro relax_point_eq) simp_all
  have "for_each xs (relax_point dx) ?t =
          Inr (?t\<lparr>u := fold (\<lambda>i v. v[nat i := stencil_1d dx (u_old ?t) (f ?t) i]) xs (u ?t),
                  du_max_proc := fold (\<lambda>i m. max m
                     \<bar>stencil_1d dx (u_old ?t) (f ?t) i - u_old ?t ! nat i\<bar>) xs (du_max_proc ?t)\<rparr>)"
    using Cons.prems by (intro Cons.IH) simp_all
  then show ?case using step by simp
qed

lemma relax_over_eq:
  assumes "\<forall>i\<in>set xs. 1 \<le> i \<and> i + 1 < int (length (u_old s))"
    and "length (u s) = length (u_old s)" "length (f s) = length (u_old s)"
  shows "relax_over dx xs s =
           Inr (s\<lparr>u := fold (\<lambda>i v. v[nat i := stencil_1d dx (u_old s) (f s) i]) xs (u s),
                  du_max_proc := Max (insert 0
                     ((\<lambda>i. \<bar>stencil_1d dx (u_old s) (f s) i - u_old s ! nat i\<bar>) ` set xs))\<rparr>)"
proof -
  have "relax_over dx xs s = for_each xs (relax_point dx) (s\<lparr>du_max_proc := 0\<rparr>)"
    by (simp add: relax_over_def)
  also have "\<dots> = Inr (s\<lparr>du_max_proc := 0\<rparr>\<lparr>u := fold (\<lambda>i v. v[nat i := stencil_1d dx (u_old s) (f s) i]) xs (u s),
                  du_max_proc := fold (\<lambda>i m. max m
                     \<bar>stencil_1d dx (u_old s) (f s) i - u_old s ! nat i\<bar>) xs 0\<rparr>)"
    using relax_loop [of xs "s\<lparr>du_max_proc := 0\<rparr>" dx] assms by simp
  finally show ?thesis by (simp add: fold_max_set)
qed

lemma relaxed_values:
  assumes "\<forall>i\<in>set xs. 1 \<le> i \<and> i + 1 < int (length (u_old s))"
    and "length (u s) = length (u_old s)" "k < length (u s)"
  shows "fold (\<lambda>i v. v[nat i := stencil_1d dx (u_old s) (f s) i]) xs (u s) ! k
           = (if int k \<in> set xs then stencil_1d dx (u_old s) (f s) (int k) else u s ! k)"
  using assms by (intro nth_fold_update) auto

lemma relax_over_permute:
  assumes "set xs = set ys"
    and "\<forall>i\<in>set xs. 1 \<le> i \<and> i + 1 < int (length (u_old s))"
    and "length (u s) = length (u_old s)" "length (f s) = length (u_old s)"
  shows "relax_over dx xs s = relax_over dx ys s"
proof -
  have "fold (\<lambda>i v. v[nat i := stencil_1d dx (u_old s) (f s) i]) xs (u s)
          = fold (\<lambda>i v. v[nat i := stencil_1d dx (u_old s) (f s) i]) ys (u s)"
  proof (rule nth_equalityI)
    show "length (fold (\<lambda>i v. v[nat i := stencil_1d dx (u_old s) (f s) i]) xs (u s))
            = length (fold (\<lambda>i v. v[nat i := stencil_1d dx (u_old s) (f s) i]) ys (u s))"
      by (simp add: length_fold_update)
  next
    fix k
    assume "k < length (fold (\<lambda>i v. v[nat i := stencil_1d dx (u_old s) (f s) i]) xs (u s))"
    then have k: "k < length (u s)" by (simp add: length_fold_update)
    show "fold (\<lambda>i v. v[nat i := stencil_1d dx (u_old s) (f s) i]) xs (u s) ! k
            = fold (\<lambda>i v. v[nat i := stencil_1d dx (u_old s) (f s) i]) ys (u s) ! k"
      using relaxed_values [of xs s k dx] relaxed_values [of ys s k dx] assms k by simp
  qed
  then show ?thesis
    using relax_over_eq [of xs s dx] relax_over_eq [of ys s dx] assms by simp
qed

section \<open>The 2D relaxation kernel on the arrays the program allocates\<close>

lemma for_each_error:
  assumes "for_each xs body s = Inl e"
    and "\<And>x t e'. body x t = Inl e' \<Longrightarrow> e' = OutOfBounds"
  shows "e = OutOfBounds"
  using assms(1)
proof (induction xs arbitrary: s)
  case Nil
  then show ?case by simp
next
  case (Cons x xs)
  show ?case
  proof (cases "body x s")
    case (Inl e')
    then show ?thesis using Cons.prems assms(2) [of x s e'] by simp
  next
    case (Inr t)
    then show ?thesis using Cons.prems Cons.IH [of t] by simp
  qed
qed

lemma for_each_reaches:
  assumes "for_each xs body s = Inr s'" and "p \<in> set xs" and "Q s"
    and "\<And>x t t'. Q t \<Longrightarrow> body x t = Inr t' \<Longrightarrow> Q t'"
  shows "\<exists>t t'. Q t \<and> body p t = Inr t'"
  using assms(1,2,3)
proof (induction xs arbitrary: s)
  case Nil
  then show ?case by simp
next
  case (Cons x xs)
  from Cons.prems(1) obtain t where t: "body x s = Inr t" and r: "for_each xs body t = Inr s'"
    by (auto simp: bindE_def split: sum.splits)
  show ?case
  proof (cases "p = x")
    case True
    then show ?thesis using t Cons.prems(3) by blast
  next
    case False
    then have "p \<in> set xs" using Cons.prems(2) by simp
    moreover have "Q t" using assms(4) [OF Cons.prems(3) t] .
    ultimately show ?thesis using Cons.IH [OF r] by blast
  qed
qed

lemma rd_error: "rd xs i = Inl e \<Longrightarrow> e = OutOfBounds"
  by (simp add: rd_def split: if_splits)

lemma wr_error: "wr xs i v = Inl e \<Longrightarrow> e = OutOfBounds"
  by (simp add: wr_def split: if_splits)

lemma bindE_error:
  assumes "bindE m k = Inl e" and "\<And>e'. m = Inl e' \<Longrightarrow> e' = OutOfBounds"
    and "\<And>x e'. k x = Inl e' \<Longrightarrow> e' = OutOfBounds"
  shows "e = OutOfBounds"
  using assms by (cases m) auto

lemma rd2_error: "rd2 g i j = Inl e \<Longrightarrow> e = OutOfBounds"
  unfolding rd2_def by (erule bindE_error) (auto dest: rd_error)

lemma wr2_error: "wr2 g i j v = Inl e \<Longrightarrow> e = OutOfBounds"
  unfolding wr2_def
  by (erule bindE_error, erule rd_error, erule bindE_error, erule wr_error, erule wr_error)

lemma relax_point2_error: "relax_point2 dx p t = Inl e \<Longrightarrow> e = OutOfBounds"
  unfolding relax_point2_def Let_def
  apply (erule bindE_error, erule rd2_error)
  apply (erule bindE_error, erule rd2_error)
  apply (erule bindE_error, erule rd2_error)
  apply (erule bindE_error, erule rd2_error)
  apply (erule bindE_error, erule rd2_error)
  apply (erule bindE_error, erule wr2_error)
  apply (erule bindE_error, erule rd2_error)
  apply (erule bindE_error, erule rd2_error)
  apply simp
  done

lemma relax_point2_keeps_old: "relax_point2 dx p t = Inr t' \<Longrightarrow> u_old2 t' = u_old2 t"
  by (auto simp: relax_point2_def Let_def bindE_def split: sum.splits)

text \<open>The read of \<open>u_old[i+1][j]\<close> needs row \<open>i + 1\<close>.\<close>

lemma relax_point2_needs_row:
  assumes "relax_point2 dx (i, j) t = Inr t'"
  shows "i + 1 < int (length (u_old2 t))"
proof -
  from assms obtain v where "rd2 (u_old2 t) (i + 1) j = Inr v"
    by (auto simp: relax_point2_def Let_def bindE_def split: sum.splits)
  then show ?thesis
    by (auto simp: rd2_def rd_def bindE_def split: sum.splits if_splits)
qed

lemma apply_jacobi2_out_of_bounds:
  assumes "1 \<le> np" "1 \<le> rank_num_points t" "int (length (u_old2 t)) \<le> np + 1"
  shows "apply_jacobi2 dx np t = Inl OutOfBounds"
proof (cases "apply_jacobi2 dx np t")
  case (Inl e)
  then have "for_each (List.product [1..np] [1..rank_num_points t]) (relax_point2 dx)
               (t\<lparr>du_max_proc2 := 0\<rparr>) = Inl e"
    by (simp add: apply_jacobi2_def relax_over2_def)
  then have "e = OutOfBounds"
    by (rule for_each_error) (rule relax_point2_error)
  then show ?thesis using Inl by simp
next
  case (Inr t')
  then have r: "for_each (List.product [1..np] [1..rank_num_points t]) (relax_point2 dx)
               (t\<lparr>du_max_proc2 := 0\<rparr>) = Inr t'"
    by (simp add: apply_jacobi2_def relax_over2_def)
  have m: "(np, 1) \<in> set (List.product [1..np] [1..rank_num_points t])"
    using assms(1,2) by simp
  have "\<exists>v v'. u_old2 v = u_old2 t \<and> relax_point2 dx (np, 1) v = Inr v'"
    by (rule for_each_reaches [OF r m, where Q = "\<lambda>v. u_old2 v = u_old2 t"])
       (simp_all add: relax_point2_keeps_old)
  then obtain v v' where v: "u_old2 v = u_old2 t" "relax_point2 dx (np, 1) v = Inr v'"
    by blast
  have "np + 1 < int (length (u_old2 t))"
    using relax_point2_needs_row [OF v(2)] v(1) by simp
  then show ?thesis using assms(3) by simp
qed

section \<open>The update rules and the local delta\<close>

lemma apply_jacobi_eq:
  assumes "allocated s"
  shows "apply_jacobi dx s =
           Inr (s\<lparr>u := fold (\<lambda>i v. v[nat i := stencil_1d dx (u_old s) (f s) i])
                         [1..points_per_proc s] (u s),
                  du_max_proc := Max (insert 0
                     ((\<lambda>i. \<bar>stencil_1d dx (u_old s) (f s) i - u_old s ! nat i\<bar>)
                        ` set [1..points_per_proc s]))\<rparr>)"
  unfolding apply_jacobi_def
  using assms by (intro relax_over_eq) (auto simp: allocated_def)

lemma apply_jacobi_value:
  assumes "allocated s" "apply_jacobi dx s = Inr s'" "k < length (u s)"
  shows "u s' ! k = (if 1 \<le> int k \<and> int k \<le> points_per_proc s
                     then stencil_1d dx (u_old s) (f s) (int k) else u s ! k)"
proof -
  have "u s' = fold (\<lambda>i v. v[nat i := stencil_1d dx (u_old s) (f s) i])
                 [1..points_per_proc s] (u s)"
    using assms(2) unfolding apply_jacobi_eq [OF assms(1)] by auto
  moreover have "fold (\<lambda>i v. v[nat i := stencil_1d dx (u_old s) (f s) i])
                   [1..points_per_proc s] (u s) ! k
           = (if int k \<in> set [1..points_per_proc s]
              then stencil_1d dx (u_old s) (f s) (int k) else u s ! k)"
    using assms(1,3) by (intro relaxed_values) (auto simp: allocated_def)
  ultimately show ?thesis by simp
qed

lemma relaxation_1d_formula:
  assumes "allocated s"
  shows "\<exists>s'. apply_jacobi dx s = Inr s' \<and> u_old s' = u_old s \<and> f s' = f s
         \<and> (\<forall>i. 1 \<le> i \<and> i \<le> points_per_proc s \<longrightarrow>
               u s' ! nat i
                 = 0.5 * (u_old s ! nat (i - 1) + u_old s ! nat (i + 1) - dx\<^sup>2 * f s ! nat i))"
proof -
  obtain s' where s': "apply_jacobi dx s = Inr s'"
    using apply_jacobi_eq [OF assms] by simp
  have keep: "u_old s' = u_old s" "f s' = f s"
    using s' unfolding apply_jacobi_eq [OF assms] by auto
  have "u s' ! nat i
          = 0.5 * (u_old s ! nat (i - 1) + u_old s ! nat (i + 1) - dx\<^sup>2 * f s ! nat i)"
    if "1 \<le> i \<and> i \<le> points_per_proc s" for i
  proof -
    have "nat i < length (u s)" using assms that by (simp add: allocated_def)
    then show ?thesis
      using apply_jacobi_value [OF assms s', of "nat i"] that by (simp add: stencil_1d_def)
  qed
  then show ?thesis using s' keep by blast
qed

text \<open>
  Claim C4 (in both variants every owned interior point gets the stencil value of the
  previous iterate) against the code. The 1D loop does so on the arrays as allocated
  (\<open>relaxation_1d_formula\<close>). The 2D program on 2 processes gives each process
  \<open>rank_num_points = 10\<close>, so each grid has 12 row pointers, while the relaxation loop
  runs \<open>i\<close> up to \<open>num_points = 20\<close> and reads \<open>u_old[i+1][j]\<close>: the sweep leaves the
  allocation and no new iterate is returned.
\<close>

theorem relaxation_2d_out_of_bounds:
  "decompose_2d num_points_2d 2 0 = Inr (10, 1, 10)
   \<and> decompose_2d num_points_2d 2 1 = Inr (10, 11, 20)
   \<and> length (u2 (allocate2 10 junk)) = 12 \<and> length (u_old2 (allocate2 10 junk)) = 12
   \<and> apply_jacobi2 dx num_points_2d (allocate2 10 junk) = Inl OutOfBounds"
proof -
  have d: "decompose_2d num_points_2d 2 0 = Inr (10, 1, 10)"
      "decompose_2d num_points_2d 2 1 = Inr (10, 11, 20)"
    by (simp_all add: decompose_2d_def num_points_2d_def c_int_def c_div_def
          INT_MAX_def INT_MIN_def)
  have l: "length (u2 (allocate2 10 junk)) = 12" "length (u_old2 (allocate2 10 junk)) = 12"
    by (simp_all add: allocate2_def)
  have "apply_jacobi2 dx num_points_2d (allocate2 10 junk) = Inl OutOfBounds"
    by (rule apply_jacobi2_out_of_bounds) (simp_all add: allocate2_def num_points_2d_def)
  then show ?thesis using d l by simp
qed

text \<open>
  Claim C9. The local delta is the maximum of 0 and the absolute changes
  \<open>|u[i] - u_old[i]|\<close> at the owned points, whatever the order of the visits: the
  relaxation loop run over any reordering \<open>xs\<close> of \<open>1, \<dots>, points_per_proc\<close> returns the
  very state that the source's order returns. (A double is a real here: \<open>max\<close> selects
  one of its arguments and rounds nothing.)
\<close>

theorem local_delta_order_independent:
  assumes "allocated s" "mset xs = mset [1..points_per_proc s]"
  shows "relax_over dx xs s = apply_jacobi dx s
     \<and> (\<exists>s'. apply_jacobi dx s = Inr s'
           \<and> du_max_proc s' = Max (insert 0 ((\<lambda>i. \<bar>u s' ! nat i - u_old s' ! nat i\<bar>)
                                               ` {1..points_per_proc s})))"
proof -
  have e: "set xs = set [1..points_per_proc s]"
    using assms(2) by (rule mset_eq_setD)
  have p: "relax_over dx xs s = apply_jacobi dx s"
    unfolding apply_jacobi_def
    using assms(1) e by (intro relax_over_permute) (auto simp: allocated_def)
  obtain s' where s': "apply_jacobi dx s = Inr s'"
    using apply_jacobi_eq [OF assms(1)] by simp
  have keep: "u_old s' = u_old s"
    using s' unfolding apply_jacobi_eq [OF assms(1)] by auto
  have d: "du_max_proc s' = Max (insert 0
             ((\<lambda>i. \<bar>stencil_1d dx (u_old s) (f s) i - u_old s ! nat i\<bar>)
                ` set [1..points_per_proc s]))"
    using s' unfolding apply_jacobi_eq [OF assms(1)] by auto
  have "u s' ! nat i = stencil_1d dx (u_old s) (f s) i" if "i \<in> {1..points_per_proc s}" for i
  proof -
    have "nat i < length (u s)" using assms(1) that by (simp add: allocated_def)
    then show ?thesis using apply_jacobi_value [OF assms(1) s', of "nat i"] that by simp
  qed
  then have "(\<lambda>i. \<bar>u s' ! nat i - u_old s' ! nat i\<bar>) ` {1..points_per_proc s}
           = (\<lambda>i. \<bar>stencil_1d dx (u_old s) (f s) i - u_old s ! nat i\<bar>) ` {1..points_per_proc s}"
    using keep by (intro image_cong) simp_all
  then show ?thesis using p s' d by simp
qed

theorem local_delta_order_independent_witness:
  "relax_over (1 / 2) [2, 1]
     \<lparr>points_per_proc = 2, first_index = 0, last_index = 1, start_index = 1,
      end_index = 2, u = [0, 0, 0, 0], u_old = [0, 1, 2, 3], f = [4, 4, 4, 4],
      du_max_proc = 0, du_max = 0\<rparr>
   = apply_jacobi (1 / 2)
     \<lparr>points_per_proc = 2, first_index = 0, last_index = 1, start_index = 1,
      end_index = 2, u = [0, 0, 0, 0], u_old = [0, 1, 2, 3], f = [4, 4, 4, 4],
      du_max_proc = 0, du_max = 0\<rparr>"
proof -
  let ?s = "\<lparr>points_per_proc = 2, first_index = 0, last_index = 1, start_index = 1,
             end_index = 2, u = [0, 0, 0, 0], u_old = [0, 1, 2, 3], f = [4, 4, 4, 4],
             du_max_proc = 0, du_max = 0\<rparr>"
  have a: "allocated ?s" by (simp add: allocated_def)
  have m: "mset [2, 1] = mset [1..points_per_proc ?s]" by (simp add: upto_rec1)
  show ?thesis using local_delta_order_independent [OF a m] by simp
qed

section \<open>The copy loop and the sweep of all processes\<close>

lemma copy_step_list:
  assumes "k < length xs" "length xs = length ys"
  shows "(take k xs @ drop k ys)[k := xs ! k] = take (Suc k) xs @ drop (Suc k) ys"
proof -
  have "drop k ys = ys ! k # drop (Suc k) ys"
    using assms by (simp add: Cons_nth_drop_Suc)
  then have "(take k xs @ drop k ys)[k := xs ! k] = take k xs @ (xs ! k # drop (Suc k) ys)"
    using assms by (simp add: list_update_append)
  then show ?thesis using assms by (simp add: take_Suc_conv_app_nth)
qed

lemma copy_prefix:
  assumes "length (u s) = length (u_old s)" "k \<le> length (u s)"
  shows "for_each [0..int k - 1] copy_point s
           = Inr (s\<lparr>u_old := take k (u s) @ drop k (u_old s)\<rparr>)"
  using assms(2)
proof (induction k)
  case 0
  then show ?case by simp
next
  case (Suc k)
  let ?t = "s\<lparr>u_old := take k (u s) @ drop k (u_old s)\<rparr>"
  have ih: "for_each [0..int k - 1] copy_point s = Inr ?t"
    using Suc by simp
  have sp: "[0..int (Suc k) - 1] = [0..int k - 1] @ [int k]"
    using upto_rec2 [of 0 "int k"] by simp
  have k: "k < length (u s)" using Suc.prems by simp
  have "copy_point (int k) ?t = Inr (?t\<lparr>u_old := (take k (u s) @ drop k (u_old s))[k := u s ! k]\<rparr>)"
    using k assms(1) by (simp add: copy_point_def rd_def wr_def)
  then have "copy_point (int k) ?t = Inr (s\<lparr>u_old := take (Suc k) (u s) @ drop (Suc k) (u_old s)\<rparr>)"
    using copy_step_list [OF k assms(1)] by simp
  then show ?case unfolding sp for_each_append ih by simp
qed

lemma copy_iterate_eq:
  assumes "allocated s"
  shows "copy_iterate s = Inr (s\<lparr>u_old := u s\<rparr>)"
proof -
  have l: "length (u s) = length (u_old s)" using assms by (simp add: allocated_def)
  have n: "int (length (u s)) - 1 = points_per_proc s + 1"
    using assms by (simp add: allocated_def)
  show ?thesis
    using copy_prefix [OF l, of "length (u s)"] l unfolding copy_iterate_def n by simp
qed

lemma allocated_copy: "allocated s \<Longrightarrow> allocated (s\<lparr>u_old := u s\<rparr>)"
  by (simp add: allocated_def)

lemma single_exchange:
  "post_sends 1 0 s = Inr []" "receive_halo 1 0 pool s = Inr s" "halo_exchange [s] = Inr [s]"
  by (simp_all add: post_sends_def receive_halo_def halo_exchange_def with_ranks_def)

lemma serial_jacobi_fold:
  assumes "allocated s" "u_old s = u s"
  shows "fold (\<lambda>i v. v[nat i := stencil_1d dx (u_old s) (f s) i]) [1..points_per_proc s] (u s)
           = serial_jacobi dx (f s) (u s)"
proof (rule nth_equalityI)
  show "length (fold (\<lambda>i v. v[nat i := stencil_1d dx (u_old s) (f s) i])
                  [1..points_per_proc s] (u s)) = length (serial_jacobi dx (f s) (u s))"
    by (simp add: length_fold_update serial_jacobi_def)
next
  fix k
  assume "k < length (fold (\<lambda>i v. v[nat i := stencil_1d dx (u_old s) (f s) i])
                       [1..points_per_proc s] (u s))"
  then have k: "k < length (u s)" by (simp add: length_fold_update)
  have "fold (\<lambda>i v. v[nat i := stencil_1d dx (u_old s) (f s) i]) [1..points_per_proc s] (u s) ! k
          = (if int k \<in> set [1..points_per_proc s]
             then stencil_1d dx (u_old s) (f s) (int k) else u s ! k)"
    using assms k by (intro relaxed_values) (auto simp: allocated_def)
  moreover have "int k \<in> set [1..points_per_proc s] \<longleftrightarrow> 1 \<le> k \<and> k + 1 < length (u s)"
    using assms(1) by (auto simp: allocated_def)
  ultimately show "fold (\<lambda>i v. v[nat i := stencil_1d dx (u_old s) (f s) i])
                     [1..points_per_proc s] (u s) ! k = serial_jacobi dx (f s) (u s) ! k"
    using k assms(2) by (simp add: serial_jacobi_def)
qed


text \<open>
  Claim C7. With one process the exchange of the 1D program posts no send and no
  receive and leaves the state as it is, and a sweep is a serial Jacobi sweep: \<open>u_old\<close>
  becomes the old \<open>u\<close>, \<open>u\<close> becomes the Jacobi update of the old \<open>u\<close> with both
  boundary cells kept, and the all-reduce hands the process its own local delta. The 2D
  program started on one process prints its message and exits (with status 0) before
  anything after the guard runs.
\<close>

theorem single_process:
  "post_sends 1 0 s = Inr [] \<and> receive_halo 1 0 pool s = Inr s \<and> halo_exchange [s] = Inr [s]
   \<and> (allocated s \<longrightarrow>
        (\<exists>s'. global_sweep dx [s] = Inr [s'] \<and> u_old s' = u s \<and> f s' = f s
           \<and> u s' = serial_jacobi dx (f s) (u s) \<and> du_max s' = du_max_proc s'))
   \<and> main_2d 1 rest = ([''This program only handles more than one process.''], 0)"
proof (intro conjI impI)
  assume a: "allocated s"
  let ?c = "s\<lparr>u_old := u s\<rparr>"
  have c: "allocated ?c" by (rule allocated_copy [OF a])
  obtain s3 where s3: "apply_jacobi dx ?c = Inr s3"
    using apply_jacobi_eq [OF c] by simp
  have f3: "u_old s3 = u s" "f s3 = f s"
      "u s3 = fold (\<lambda>i v. v[nat i := stencil_1d dx (u_old ?c) (f ?c) i])
                [1..points_per_proc ?c] (u ?c)"
    using s3 unfolding apply_jacobi_eq [OF c] by auto
  have "u s3 = serial_jacobi dx (f ?c) (u ?c)"
    unfolding f3(3) using c by (intro serial_jacobi_fold) simp_all
  then have u3: "u s3 = serial_jacobi dx (f s) (u s)" by simp
  have "global_sweep dx [s] = Inr [s3\<lparr>du_max := du_max_proc s3\<rparr>]"
    by (simp add: global_sweep_def copy_iterate_eq [OF a] single_exchange s3
          all_reduce_def allreduce_max_def)
  then show "\<exists>s'. global_sweep dx [s] = Inr [s'] \<and> u_old s' = u s \<and> f s' = f s
           \<and> u s' = serial_jacobi dx (f s) (u s) \<and> du_max s' = du_max_proc s'"
    using f3(1,2) u3 by simp
qed (simp_all add: single_exchange main_2d_def)

theorem single_process_witness:
  "\<exists>s'. global_sweep (1 / 2)
           [\<lparr>points_per_proc = 2, first_index = 0, last_index = 1, start_index = 1,
             end_index = 2, u = [0, 1, 2, 3], u_old = [9, 9, 9, 9], f = [4, 4, 4, 4],
             du_max_proc = 0, du_max = 0\<rparr>] = Inr [s']
         \<and> u s' = [0, 1 / 2, 3 / 2, 3] \<and> u_old s' = [0, 1, 2, 3]"
proof -
  let ?s = "\<lparr>points_per_proc = 2, first_index = 0, last_index = 1, start_index = 1,
             end_index = 2, u = [0, 1, 2, 3], u_old = [9, 9, 9, 9], f = [4, 4, 4, 4],
             du_max_proc = 0, du_max = 0\<rparr>"
  have a: "allocated ?s" by (simp add: allocated_def)
  have "serial_jacobi (1 / 2) (f ?s) (u ?s) = [0, 1 / 2, 3 / 2, 3]"
    by (simp add: serial_jacobi_def stencil_1d_def upt_rec numeral_eq_Suc power2_eq_square)
  then show ?thesis using single_process [of ?s pool "1 / 2" rest] a by auto
qed

section \<open>The all-reduce and the stop condition\<close>










section \<open>The exchange on a rank with two neighbours\<close>

lemma decompose_6_3:
  "decompose 6 3 0 = Inr \<lparr>points_per_proc = 2, first_index = 0, last_index = 1,
                           start_index = 1, end_index = 2\<rparr>"
  "decompose 6 3 1 = Inr \<lparr>points_per_proc = 2, first_index = 2, last_index = 3,
                           start_index = 3, end_index = 4\<rparr>"
  "decompose 6 3 2 = Inr \<lparr>points_per_proc = 2, first_index = 4, last_index = 5,
                           start_index = 5, end_index = 6\<rparr>"
  by (simp_all add: decompose_def c_int_def c_div_def INT_MAX_def INT_MIN_def)

text \<open>
  Claim C5 (the exchange step writes ghost cells only, the kernel the owned interior
  only) against the code. With 6 points on 3 processes, rank 1 has \<open>points_per_proc = 2\<close>,
  so arrays of 4 cells with the ghost cells at 0 and 3, and \<open>end_index = 4\<close>. Its exchange
  sends from and receives into \<open>u_old[end_index + 1] = u_old[5]\<close>: the write of the
  exchange step goes to no ghost cell, but outside the array, whatever the arrays hold.
\<close>

theorem exchange_writes_outside_array:
  "decompose 6 3 1 = Inr \<lparr>points_per_proc = 2, first_index = 2, last_index = 3,
                           start_index = 3, end_index = 4\<rparr>
   \<and> length (u_old (allocate \<lparr>points_per_proc = 2, first_index = 2, last_index = 3,
                                start_index = 3, end_index = 4\<rparr> junk)) = 4
   \<and> receive_halo 3 1 [\<lparr>msg_src = 2, msg_dest = 1, msg_tag = 1, payload = v\<rparr>]
        (allocate \<lparr>points_per_proc = 2, first_index = 2, last_index = 3,
                   start_index = 3, end_index = 4\<rparr> junk) = Inl OutOfBounds
   \<and> post_sends 3 1
        (allocate \<lparr>points_per_proc = 2, first_index = 2, last_index = 3,
                   start_index = 3, end_index = 4\<rparr> junk) = Inl OutOfBounds
   \<and> halo_exchange
        [allocate \<lparr>points_per_proc = 2, first_index = 0, last_index = 1,
                   start_index = 1, end_index = 2\<rparr> junk,
         allocate \<lparr>points_per_proc = 2, first_index = 2, last_index = 3,
                   start_index = 3, end_index = 4\<rparr> junk,
         allocate \<lparr>points_per_proc = 2, first_index = 4, last_index = 5,
                   start_index = 5, end_index = 6\<rparr> junk] = Inl OutOfBounds"
  by (simp add: decompose_6_3 allocate_def malloc_4 receive_halo_def mpi_recv_def
      post_sends_def halo_exchange_def with_ranks_def upto_rec1 eval_array)

end
